theory Spec2Isabelle
  imports Main "HOL-Library.Word"
begin

section \<open>Interface values, errors and the calls made on layers\<close>

text \<open>
  The package \<open>iochain\<close> stacks \<open>io.Writer\<close>s (\<open>StackWriter\<close>, stackwriter.go) and
  \<open>io.Reader\<close>s (\<open>MultiReader\<close>, multireader.go). A layer is a Go interface value. A
  non-nil interface value is identified by a \<open>handle\<close> (its dynamic type and pointer); an
  argument of interface type is a \<open>handle option\<close>, \<open>None\<close> being Go's \<open>nil\<close>.

  The methods of a layer are foreign code with effects of their own. They are modelled by
  a record of functions over an arbitrary world \<open>'w\<close>: each method takes the world and
  returns its results and the new world. Whether a handle satisfies the type assertions
  \<open>.(Flusher)\<close> and \<open>.(io.Closer)\<close> depends on its dynamic type only, so it is a predicate
  on handles. Methods of layers are assumed to return (they neither panic nor block), and
  the mutex \<open>mu\<close> is not modelled: every operation runs alone from start to end.

  Every call the stack makes on a layer is appended to a trace, in the order of the calls.
\<close>

type_synonym byte = "8 word"

type_synonym handle = nat

datatype error =
    ErrorsNew string
  | ErrClosedPipe
  | EOF
  | LayerError nat

datatype panic = IndexOutOfRange int

datatype event =
    WriteCall handle "byte list"
  | ReadCall handle "byte list"
  | WriterResetCall handle handle
  | ReaderResetCall handle handle
  | FlushCall handle
  | CloseCall handle

record 'w layers =
  Write_of :: "handle \<Rightarrow> byte list \<Rightarrow> 'w \<Rightarrow> (int \<times> error option) \<times> 'w"
  WriterReset_of :: "handle \<Rightarrow> handle \<Rightarrow> 'w \<Rightarrow> 'w"
  Read_of :: "handle \<Rightarrow> byte list \<Rightarrow> 'w \<Rightarrow> (byte list \<times> int \<times> error option) \<times> 'w"
  ReaderReset_of :: "handle \<Rightarrow> handle \<Rightarrow> 'w \<Rightarrow> error option \<times> 'w"
  is_Flusher :: "handle \<Rightarrow> bool"
  Flush_of :: "handle \<Rightarrow> 'w \<Rightarrow> error option \<times> 'w"
  is_Closer :: "handle \<Rightarrow> bool"
  Close_of :: "handle \<Rightarrow> 'w \<Rightarrow> error option \<times> 'w"

record 'w sys =
  trace :: "event list"
  world :: 'w

text \<open>Indexing a slice: Go panics when the index is out of range.\<close>

definition go_index :: "'a list \<Rightarrow> int \<Rightarrow> 'a option" where
  "go_index xs i = (if 0 \<le> i \<and> i < int (length xs) then Some (xs ! nat i) else None)"

section \<open>The sweep of Flush and Close\<close>

text \<open>
  The loop
  \<^verbatim>\<open>for i := len(xs) - 1; i >= 0; i-- {
    if c, ok := xs[i].(T); ok {
      if err := c.M(); err != nil && firstErr == nil { firstErr = err }
    }
  }\<close>
  occurs five times in the source (Flush, Close and twice in FlushAndClose of the
  StackWriter, Close of the MultiReader), with \<open>T\<close>, \<open>M\<close> being \<open>Flusher\<close>, \<open>Flush\<close> or
  \<open>io.Closer\<close>, \<open>Close\<close>. It is modelled once, with the type assertion \<open>ok\<close>, the method
  \<open>call\<close> and the event \<open>ev\<close> as parameters; the loop variable \<open>i\<close> is a Go \<open>int\<close>.
\<close>

function sweep ::
  "(handle \<Rightarrow> bool) \<Rightarrow> (handle \<Rightarrow> 'w \<Rightarrow> error option \<times> 'w) \<Rightarrow> (handle \<Rightarrow> event) \<Rightarrow>
   handle list \<Rightarrow> int \<Rightarrow> error option \<Rightarrow> 'w sys \<Rightarrow> (panic + error option) \<times> 'w sys" where
  "sweep ok call ev xs i firstErr s =
     (if i \<ge> 0 then
        (case go_index xs i of
           None \<Rightarrow> (Inl (IndexOutOfRange i), s)
         | Some x \<Rightarrow>
             (if ok x then
                sweep ok call ev xs (i - 1)
                  (if fst (call x (world s)) \<noteq> None \<and> firstErr = None
                   then fst (call x (world s)) else firstErr)
                  \<lparr>trace = trace s @ [ev x], world = snd (call x (world s))\<rparr>
              else sweep ok call ev xs (i - 1) firstErr s))
      else (Inr firstErr, s))"
  by pat_completeness auto
termination
  by (relation "measure (\<lambda>(ok, call, ev, xs, i, firstErr, s). nat (i + 1))") auto

declare sweep.simps [simp del]

section \<open>StackWriter\<close>

record StackWriter =
  base :: handle
  writers :: "handle list"

definition NewStackWriter :: "handle option \<Rightarrow> error + StackWriter" where
  "NewStackWriter b =
     (case b of
        None \<Rightarrow> Inl (ErrorsNew ''base writer cannot be nil'')
      | Some h \<Rightarrow> Inr \<lparr>base = h, writers = [h]\<rparr>)"

definition StackWriter_AddWriter ::
  "'w layers \<Rightarrow> handle option \<Rightarrow> StackWriter \<Rightarrow> 'w sys \<Rightarrow>
   (panic + error option) \<times> StackWriter \<times> 'w sys" where
  "StackWriter_AddWriter L w m s =
     (case w of
        None \<Rightarrow> (Inr (Some (ErrorsNew ''writer cannot be nil'')), m, s)
      | Some h \<Rightarrow>
          (case go_index (writers m) (int (length (writers m)) - 1) of
             None \<Rightarrow> (Inl (IndexOutOfRange (int (length (writers m)) - 1)), m, s)
           | Some prev \<Rightarrow>
               (Inr None,
                m\<lparr>writers := writers m @ [h]\<rparr>,
                \<lparr>trace = trace s @ [WriterResetCall h prev],
                 world = WriterReset_of L h prev (world s)\<rparr>)))"

definition StackWriter_Write ::
  "'w layers \<Rightarrow> byte list \<Rightarrow> StackWriter \<Rightarrow> 'w sys \<Rightarrow>
   (panic + int \<times> error option) \<times> StackWriter \<times> 'w sys" where
  "StackWriter_Write L p m s =
     (if length (writers m) = 0 then (Inr (0, Some ErrClosedPipe), m, s)
      else
        (case go_index (writers m) (int (length (writers m)) - 1) of
           None \<Rightarrow> (Inl (IndexOutOfRange (int (length (writers m)) - 1)), m, s)
         | Some tp \<Rightarrow>
             (Inr (fst (Write_of L tp p (world s))),
              m,
              \<lparr>trace = trace s @ [WriteCall tp p],
               world = snd (Write_of L tp p (world s))\<rparr>)))"

definition StackWriter_Flush ::
  "'w layers \<Rightarrow> StackWriter \<Rightarrow> 'w sys \<Rightarrow> (panic + error option) \<times> StackWriter \<times> 'w sys" where
  "StackWriter_Flush L m s =
     (case sweep (is_Flusher L) (Flush_of L) FlushCall (writers m)
             (int (length (writers m)) - 1) None s of
        (r, s') \<Rightarrow> (r, m, s'))"

definition StackWriter_Close ::
  "'w layers \<Rightarrow> StackWriter \<Rightarrow> 'w sys \<Rightarrow> (panic + error option) \<times> StackWriter \<times> 'w sys" where
  "StackWriter_Close L m s =
     (case sweep (is_Closer L) (Close_of L) CloseCall (writers m)
             (int (length (writers m)) - 1) None s of
        (Inl pn, s') \<Rightarrow> (Inl pn, m, s')
      | (Inr firstErr, s') \<Rightarrow> (Inr firstErr, m\<lparr>writers := []\<rparr>, s'))"

definition StackWriter_FlushAndClose ::
  "'w layers \<Rightarrow> StackWriter \<Rightarrow> 'w sys \<Rightarrow> (panic + error option) \<times> StackWriter \<times> 'w sys" where
  "StackWriter_FlushAndClose L m s =
     (case sweep (is_Flusher L) (Flush_of L) FlushCall (writers m)
             (int (length (writers m)) - 1) None s of
        (Inl pn, s') \<Rightarrow> (Inl pn, m, s')
      | (Inr firstErr, s') \<Rightarrow>
          (case sweep (is_Closer L) (Close_of L) CloseCall (writers m)
                  (int (length (writers m)) - 1) firstErr s' of
             (Inl pn, s'') \<Rightarrow> (Inl pn, m, s'')
           | (Inr firstErr', s'') \<Rightarrow> (Inr firstErr', m\<lparr>writers := []\<rparr>, s'')))"

section \<open>MultiReader\<close>

record MultiReader =
  readers :: "handle list"

definition NewReader :: "handle option \<Rightarrow> error + MultiReader" where
  "NewReader b =
     (case b of
        None \<Rightarrow> Inl (ErrorsNew ''base reader cannot be nil'')
      | Some h \<Rightarrow> Inr \<lparr>readers = [h]\<rparr>)"

definition MultiReader_AddReader ::
  "'w layers \<Rightarrow> handle option \<Rightarrow> MultiReader \<Rightarrow> 'w sys \<Rightarrow>
   (panic + error option) \<times> MultiReader \<times> 'w sys" where
  "MultiReader_AddReader L r m s =
     (case r of
        None \<Rightarrow> (Inr (Some (ErrorsNew ''reader cannot be nil'')), m, s)
      | Some h \<Rightarrow>
          (case go_index (readers m) (int (length (readers m)) - 1) of
             None \<Rightarrow> (Inl (IndexOutOfRange (int (length (readers m)) - 1)), m, s)
           | Some prev \<Rightarrow>
               (case ReaderReset_of L h prev (world s) of
                  (Some err, w') \<Rightarrow>
                    (Inr (Some err), m,
                     \<lparr>trace = trace s @ [ReaderResetCall h prev], world = w'\<rparr>)
                | (None, w') \<Rightarrow>
                    (Inr None,
                     m\<lparr>readers := readers m @ [h]\<rparr>,
                     \<lparr>trace = trace s @ [ReaderResetCall h prev], world = w'\<rparr>))))"

definition MultiReader_Read ::
  "'w layers \<Rightarrow> byte list \<Rightarrow> MultiReader \<Rightarrow> 'w sys \<Rightarrow>
   (panic + byte list \<times> int \<times> error option) \<times> MultiReader \<times> 'w sys" where
  "MultiReader_Read L p m s =
     (if length (readers m) = 0 then (Inr (p, 0, Some EOF), m, s)
      else
        (case go_index (readers m) (int (length (readers m)) - 1) of
           None \<Rightarrow> (Inl (IndexOutOfRange (int (length (readers m)) - 1)), m, s)
         | Some tp \<Rightarrow>
             (Inr (fst (Read_of L tp p (world s))),
              m,
              \<lparr>trace = trace s @ [ReadCall tp p],
               world = snd (Read_of L tp p (world s))\<rparr>)))"

definition MultiReader_Close ::
  "'w layers \<Rightarrow> MultiReader \<Rightarrow> 'w sys \<Rightarrow> (panic + error option) \<times> MultiReader \<times> 'w sys" where
  "MultiReader_Close L m s =
     (case sweep (is_Closer L) (Close_of L) CloseCall (readers m)
             (int (length (readers m)) - 1) None s of
        (Inl pn, s') \<Rightarrow> (Inl pn, m, s')
      | (Inr firstErr, s') \<Rightarrow> (Inr firstErr, m\<lparr>readers := []\<rparr>, s'))"

section \<open>Clients of a stack\<close>

text \<open>
  A client attaches layers one after the other, and more generally calls the operations
  of a stack in any order. A panic unwinds the operation (the deferred unlock runs) and
  leaves the stack as it was at that moment; the client goes on with the stack as it is.
\<close>

fun add_writers ::
  "'w layers \<Rightarrow> handle list \<Rightarrow> StackWriter \<Rightarrow> 'w sys \<Rightarrow>
   (panic + error option) list \<times> StackWriter \<times> 'w sys" where
  "add_writers L [] m s = ([], m, s)"
| "add_writers L (l # ls) m s =
     (case StackWriter_AddWriter L (Some l) m s of
        (r, m', s') \<Rightarrow>
          (case add_writers L ls m' s' of (rs, m'', s'') \<Rightarrow> (r # rs, m'', s'')))"

fun add_readers ::
  "'w layers \<Rightarrow> handle list \<Rightarrow> MultiReader \<Rightarrow> 'w sys \<Rightarrow>
   (panic + error option) list \<times> MultiReader \<times> 'w sys" where
  "add_readers L [] m s = ([], m, s)"
| "add_readers L (l # ls) m s =
     (case MultiReader_AddReader L (Some l) m s of
        (r, m', s') \<Rightarrow>
          (case add_readers L ls m' s' of (rs, m'', s'') \<Rightarrow> (r # rs, m'', s'')))"

datatype wop =
    OpAddWriter "handle option"
  | OpWrite "byte list"
  | OpFlush
  | OpClose
  | OpFlushAndClose

fun wcloses :: "wop \<Rightarrow> bool" where
  "wcloses OpClose = True"
| "wcloses OpFlushAndClose = True"
| "wcloses _ = False"

fun wstep :: "'w layers \<Rightarrow> wop \<Rightarrow> StackWriter \<times> 'w sys \<Rightarrow> StackWriter \<times> 'w sys" where
  "wstep L (OpAddWriter w) (m, s) = snd (StackWriter_AddWriter L w m s)"
| "wstep L (OpWrite p) (m, s) = snd (StackWriter_Write L p m s)"
| "wstep L OpFlush (m, s) = snd (StackWriter_Flush L m s)"
| "wstep L OpClose (m, s) = snd (StackWriter_Close L m s)"
| "wstep L OpFlushAndClose (m, s) = snd (StackWriter_FlushAndClose L m s)"

fun wrun :: "'w layers \<Rightarrow> wop list \<Rightarrow> StackWriter \<times> 'w sys \<Rightarrow> StackWriter \<times> 'w sys" where
  "wrun L [] c = c"
| "wrun L (op # ops) c = wrun L ops (wstep L op c)"

datatype rop =
    OpAddReader "handle option"
  | OpRead "byte list"
  | OpReaderClose

fun rcloses :: "rop \<Rightarrow> bool" where
  "rcloses OpReaderClose = True"
| "rcloses _ = False"

fun rstep :: "'w layers \<Rightarrow> rop \<Rightarrow> MultiReader \<times> 'w sys \<Rightarrow> MultiReader \<times> 'w sys" where
  "rstep L (OpAddReader r) (m, s) = snd (MultiReader_AddReader L r m s)"
| "rstep L (OpRead p) (m, s) = snd (MultiReader_Read L p m s)"
| "rstep L OpReaderClose (m, s) = snd (MultiReader_Close L m s)"

fun rrun :: "'w layers \<Rightarrow> rop list \<Rightarrow> MultiReader \<times> 'w sys \<Rightarrow> MultiReader \<times> 'w sys" where
  "rrun L [] c = c"
| "rrun L (op # ops) c = rrun L ops (rstep L op c)"

section \<open>What a sweep is to do\<close>

text \<open>
  The description of a sweep in the words of the specification: the capability is invoked
  on the given layers one after the other, each call starting in the world the previous
  one left (\<open>call_all\<close> returns what every call returned), and the error reported is the
  first one that is not nil (\<open>first_error\<close>).
\<close>

fun call_all ::
  "(handle \<Rightarrow> 'w \<Rightarrow> error option \<times> 'w) \<Rightarrow> handle list \<Rightarrow> 'w \<Rightarrow> error option list \<times> 'w" where
  "call_all call [] w = ([], w)"
| "call_all call (x # xs) w =
     (fst (call x w) # fst (call_all call xs (snd (call x w))),
      snd (call_all call xs (snd (call x w))))"

fun first_error :: "error option list \<Rightarrow> error option" where
  "first_error [] = None"
| "first_error (None # es) = first_error es"
| "first_error (Some e # es) = Some e"

section \<open>A concrete set of layers\<close>

text \<open>
  Layers on which the theorems below are instantiated. The world counts the calls made so
  far. Handle 0 is a plain base without Flush or Close; every other handle has Close, and
  handles 1 and 2 have Flush. Flush fails on handle 2, Close fails on every handle that has
  it, and the reader's Reset fails on handle 3.
\<close>

definition demo_layers :: "nat layers" where
  "demo_layers =
     \<lparr>Write_of = (\<lambda>h p w. ((int (length p), None), w + 1)),
      WriterReset_of = (\<lambda>h prev w. w + 1),
      Read_of = (\<lambda>h p w. ((p, 0, Some EOF), w + 1)),
      ReaderReset_of = (\<lambda>h prev w. (if h = 3 then Some (LayerError 3) else None, w + 1)),
      is_Flusher = (\<lambda>h. h = 1 \<or> h = 2),
      Flush_of = (\<lambda>h w. (if h = 2 then Some (LayerError 20) else None, w + 1)),
      is_Closer = (\<lambda>h. 0 < h),
      Close_of = (\<lambda>h w. (Some (LayerError (30 + h)), w + 1))\<rparr>"

definition demo_sys :: "nat sys" where
  "demo_sys = \<lparr>trace = [], world = 0\<rparr>"

section \<open>Properties of the sweep\<close>

lemma first_error_step:
  "first_error ((if e \<noteq> None \<and> firstErr = None then e else firstErr) # es) =
   first_error (firstErr # e # es)"
  by (cases firstErr; cases e) simp_all

lemma first_error_append: "first_error (first_error es # fs) = first_error (es @ fs)"
proof (induction es)
  case Nil
  show ?case by simp
next
  case (Cons e es)
  then show ?case by (cases e) simp_all
qed

lemma go_index_in_range: "n < length xs \<Longrightarrow> go_index xs (int n) = Some (xs ! n)"
  by (simp add: go_index_def)

lemma go_index_top: "xs \<noteq> [] \<Longrightarrow> go_index xs (int (length xs) - 1) = Some (last xs)"
  by (cases xs rule: rev_cases) (simp_all add: go_index_def)

lemma go_index_empty: "go_index [] i = None"
  by (simp add: go_index_def)

lemma sweep_take:
  "n \<le> length xs \<Longrightarrow>
   sweep ok call ev xs (int n - 1) firstErr s =
     (Inr (first_error (firstErr # fst (call_all call (filter ok (rev (take n xs))) (world s)))),
      \<lparr>trace = trace s @ map ev (filter ok (rev (take n xs))),
       world = snd (call_all call (filter ok (rev (take n xs))) (world s))\<rparr>)"
proof (induction n arbitrary: firstErr s)
  case 0
  then show ?case by (cases firstErr) (simp_all add: sweep.simps)
next
  case (Suc n)
  then have lt: "n < length xs" and le: "n \<le> length xs" by simp_all
  have idx: "go_index xs (int n) = Some (xs ! n)" using lt by (rule go_index_in_range)
  have tk: "rev (take (Suc n) xs) = xs ! n # rev (take n xs)"
    using lt by (simp add: take_Suc_conv_app_nth)
  have unf: "sweep ok call ev xs (int (Suc n) - 1) firstErr s =
        (if ok (xs ! n) then
           sweep ok call ev xs (int n - 1)
             (if fst (call (xs ! n) (world s)) \<noteq> None \<and> firstErr = None
              then fst (call (xs ! n) (world s)) else firstErr)
             \<lparr>trace = trace s @ [ev (xs ! n)], world = snd (call (xs ! n) (world s))\<rparr>
         else sweep ok call ev xs (int n - 1) firstErr s)"
    by (subst sweep.simps) (simp add: idx)
  show ?case
  proof (cases "ok (xs ! n)")
    case True
    show ?thesis
      unfolding unf tk using True
      by (simp add: Suc.IH [OF le] first_error_step del: first_error.simps)
         (cases firstErr; simp)
  next
    case False
    show ?thesis
      unfolding unf tk using False by (simp add: Suc.IH [OF le])
  qed
qed

lemma sweep_all:
  "sweep ok call ev xs (int (length xs) - 1) firstErr s =
     (Inr (first_error (firstErr # fst (call_all call (filter ok (rev xs)) (world s)))),
      \<lparr>trace = trace s @ map ev (filter ok (rev xs)),
       world = snd (call_all call (filter ok (rev xs)) (world s))\<rparr>)"
  using sweep_take [of "length xs" xs ok call ev firstErr s] by simp

lemma Flush_sweeps:
  "StackWriter_Flush L m s =
     (Inr (first_error (fst (call_all (Flush_of L) (filter (is_Flusher L) (rev (writers m))) (world s)))),
      m,
      \<lparr>trace = trace s @ map FlushCall (filter (is_Flusher L) (rev (writers m))),
       world = snd (call_all (Flush_of L) (filter (is_Flusher L) (rev (writers m))) (world s))\<rparr>)"
  by (simp add: StackWriter_Flush_def sweep_all)

lemma Close_sweeps:
  "StackWriter_Close L m s =
     (Inr (first_error (fst (call_all (Close_of L) (filter (is_Closer L) (rev (writers m))) (world s)))),
      m\<lparr>writers := []\<rparr>,
      \<lparr>trace = trace s @ map CloseCall (filter (is_Closer L) (rev (writers m))),
       world = snd (call_all (Close_of L) (filter (is_Closer L) (rev (writers m))) (world s))\<rparr>)"
  by (simp add: StackWriter_Close_def sweep_all)

lemma ReaderClose_sweeps:
  "MultiReader_Close L m s =
     (Inr (first_error (fst (call_all (Close_of L) (filter (is_Closer L) (rev (readers m))) (world s)))),
      m\<lparr>readers := []\<rparr>,
      \<lparr>trace = trace s @ map CloseCall (filter (is_Closer L) (rev (readers m))),
       world = snd (call_all (Close_of L) (filter (is_Closer L) (rev (readers m))) (world s))\<rparr>)"
  by (simp add: MultiReader_Close_def sweep_all)

lemma FlushAndClose_sweeps:
  "StackWriter_FlushAndClose L m s =
     (Inr (first_error
             (fst (call_all (Flush_of L) (filter (is_Flusher L) (rev (writers m))) (world s)) @
              fst (call_all (Close_of L) (filter (is_Closer L) (rev (writers m)))
                     (snd (call_all (Flush_of L) (filter (is_Flusher L) (rev (writers m))) (world s)))))),
      m\<lparr>writers := []\<rparr>,
      \<lparr>trace = trace s @ map FlushCall (filter (is_Flusher L) (rev (writers m))) @
                map CloseCall (filter (is_Closer L) (rev (writers m))),
       world = snd (call_all (Close_of L) (filter (is_Closer L) (rev (writers m)))
                     (snd (call_all (Flush_of L) (filter (is_Flusher L) (rev (writers m))) (world s))))\<rparr>)"
  by (simp add: StackWriter_FlushAndClose_def sweep_all first_error_append)

section \<open>Properties of the single operations\<close>

lemma Write_top:
  "writers m \<noteq> [] \<Longrightarrow>
   StackWriter_Write L p m s =
     (Inr (fst (Write_of L (last (writers m)) p (world s))), m,
      \<lparr>trace = trace s @ [WriteCall (last (writers m)) p],
       world = snd (Write_of L (last (writers m)) p (world s))\<rparr>)"
  by (simp add: StackWriter_Write_def go_index_top)

lemma Write_closed:
  "writers m = [] \<Longrightarrow> StackWriter_Write L p m s = (Inr (0, Some ErrClosedPipe), m, s)"
  by (simp add: StackWriter_Write_def)

lemma Read_top:
  "readers m \<noteq> [] \<Longrightarrow>
   MultiReader_Read L p m s =
     (Inr (fst (Read_of L (last (readers m)) p (world s))), m,
      \<lparr>trace = trace s @ [ReadCall (last (readers m)) p],
       world = snd (Read_of L (last (readers m)) p (world s))\<rparr>)"
  by (simp add: MultiReader_Read_def go_index_top)

lemma Read_closed:
  "readers m = [] \<Longrightarrow> MultiReader_Read L p m s = (Inr (p, 0, Some EOF), m, s)"
  by (simp add: MultiReader_Read_def)

lemma AddWriter_nil:
  "StackWriter_AddWriter L None m s = (Inr (Some (ErrorsNew ''writer cannot be nil'')), m, s)"
  by (simp add: StackWriter_AddWriter_def)

lemma AddReader_nil:
  "MultiReader_AddReader L None m s = (Inr (Some (ErrorsNew ''reader cannot be nil'')), m, s)"
  by (simp add: MultiReader_AddReader_def)

lemma AddWriter_closed:
  "writers m = [] \<Longrightarrow>
   StackWriter_AddWriter L (Some w) m s = (Inl (IndexOutOfRange (- 1)), m, s)"
  by (simp add: StackWriter_AddWriter_def go_index_empty)

lemma AddReader_closed:
  "readers m = [] \<Longrightarrow>
   MultiReader_AddReader L (Some r) m s = (Inl (IndexOutOfRange (- 1)), m, s)"
  by (simp add: MultiReader_AddReader_def go_index_empty)

lemma AddWriter_open:
  "writers m \<noteq> [] \<Longrightarrow>
   StackWriter_AddWriter L (Some w) m s =
     (Inr None, m\<lparr>writers := writers m @ [w]\<rparr>,
      \<lparr>trace = trace s @ [WriterResetCall w (last (writers m))],
       world = WriterReset_of L w (last (writers m)) (world s)\<rparr>)"
  by (simp add: StackWriter_AddWriter_def go_index_top)

lemma AddReader_open:
  "readers m \<noteq> [] \<Longrightarrow>
   MultiReader_AddReader L (Some r) m s =
     (case fst (ReaderReset_of L r (last (readers m)) (world s)) of
        Some err \<Rightarrow> Inr (Some err)
      | None \<Rightarrow> Inr None,
      case fst (ReaderReset_of L r (last (readers m)) (world s)) of
        Some err \<Rightarrow> m
      | None \<Rightarrow> m\<lparr>readers := readers m @ [r]\<rparr>,
      \<lparr>trace = trace s @ [ReaderResetCall r (last (readers m))],
       world = snd (ReaderReset_of L r (last (readers m)) (world s))\<rparr>)"
  by (simp add: MultiReader_AddReader_def go_index_top split: prod.splits option.splits)

lemma writers_clear_closed: "writers m = [] \<Longrightarrow> m\<lparr>writers := []\<rparr> = m"
  by (cases m) simp

lemma readers_clear_closed: "readers m = [] \<Longrightarrow> m\<lparr>readers := []\<rparr> = m"
  by (cases m) simp

lemma sys_same: "\<lparr>trace = trace s, world = world s\<rparr> = s"
  by (cases s) simp

lemma Flush_closed: "writers m = [] \<Longrightarrow> StackWriter_Flush L m s = (Inr None, m, s)"
  by (simp add: Flush_sweeps)

lemma Close_closed: "writers m = [] \<Longrightarrow> StackWriter_Close L m s = (Inr None, m, s)"
  by (simp add: Close_sweeps writers_clear_closed)

lemma FlushAndClose_closed:
  "writers m = [] \<Longrightarrow> StackWriter_FlushAndClose L m s = (Inr None, m, s)"
  by (simp add: FlushAndClose_sweeps writers_clear_closed)

lemma ReaderClose_closed: "readers m = [] \<Longrightarrow> MultiReader_Close L m s = (Inr None, m, s)"
  by (simp add: ReaderClose_sweeps readers_clear_closed)

lemma wstep_closed: "writers m = [] \<Longrightarrow> wstep L op (m, s) = (m, s)"
proof (cases op)
  case (OpAddWriter w)
  assume "writers m = []"
  then show ?thesis using OpAddWriter
    by (cases w) (simp_all add: AddWriter_nil AddWriter_closed)
qed (simp_all add: Write_closed Flush_closed Close_closed FlushAndClose_closed)

lemma wrun_closed: "writers m = [] \<Longrightarrow> wrun L ops (m, s) = (m, s)"
  by (induction ops) (simp_all add: wstep_closed)

lemma rstep_closed: "readers m = [] \<Longrightarrow> rstep L op (m, s) = (m, s)"
proof (cases op)
  case (OpAddReader r)
  assume "readers m = []"
  then show ?thesis using OpAddReader
    by (cases r) (simp_all add: AddReader_nil AddReader_closed)
qed (simp_all add: Read_closed ReaderClose_closed)

lemma rrun_closed: "readers m = [] \<Longrightarrow> rrun L ops (m, s) = (m, s)"
  by (induction ops) (simp_all add: rstep_closed)

lemma wrun_closed_pair: "writers (fst c) = [] \<Longrightarrow> wrun L ops c = c"
  by (cases c) (simp add: wrun_closed)

lemma rrun_closed_pair: "readers (fst c) = [] \<Longrightarrow> rrun L ops c = c"
  by (cases c) (simp add: rrun_closed)

lemma writers_update_same: "m\<lparr>writers := writers m\<rparr> = m"
  by (cases m) simp

lemma readers_update_same: "m\<lparr>readers := readers m\<rparr> = m"
  by (cases m) simp

lemma add_writers_open:
  "writers m \<noteq> [] \<Longrightarrow>
   add_writers L ls m s =
     (replicate (length ls) (Inr None),
      m\<lparr>writers := writers m @ ls\<rparr>,
      \<lparr>trace = trace s @ map2 WriterResetCall ls (last (writers m) # ls),
       world = foldl (\<lambda>w (l, prev). WriterReset_of L l prev w) (world s)
                 (zip ls (last (writers m) # ls))\<rparr>)"
proof (induction ls arbitrary: m s)
  case Nil
  show ?case by (simp add: writers_update_same sys_same)
next
  case (Cons l ls)
  let ?m = "m\<lparr>writers := writers m @ [l]\<rparr>"
  let ?s = "\<lparr>trace = trace s @ [WriterResetCall l (last (writers m))],
             world = WriterReset_of L l (last (writers m)) (world s)\<rparr>"
  have step: "StackWriter_AddWriter L (Some l) m s = (Inr None, ?m, ?s)"
    using Cons.prems by (rule AddWriter_open)
  have ne: "writers ?m \<noteq> []" by simp
  show ?case
    by (simp add: step Cons.IH [OF ne])
qed

lemma add_readers_open:
  "readers m \<noteq> [] \<Longrightarrow>
   fst (add_readers L ls m s) = replicate (length ls) (Inr None) \<Longrightarrow>
   add_readers L ls m s =
     (replicate (length ls) (Inr None),
      m\<lparr>readers := readers m @ ls\<rparr>,
      \<lparr>trace = trace s @ map2 ReaderResetCall ls (last (readers m) # ls),
       world = foldl (\<lambda>w (l, prev). snd (ReaderReset_of L l prev w)) (world s)
                 (zip ls (last (readers m) # ls))\<rparr>)"
proof (induction ls arbitrary: m s)
  case Nil
  show ?case by (simp add: readers_update_same sys_same)
next
  case (Cons l ls)
  let ?m = "m\<lparr>readers := readers m @ [l]\<rparr>"
  let ?s = "\<lparr>trace = trace s @ [ReaderResetCall l (last (readers m))],
             world = snd (ReaderReset_of L l (last (readers m)) (world s))\<rparr>"
  have ok: "fst (ReaderReset_of L l (last (readers m)) (world s)) = None"
    using Cons.prems
    by (cases "fst (ReaderReset_of L l (last (readers m)) (world s))")
       (simp_all add: AddReader_open split: prod.splits)
  have step: "MultiReader_AddReader L (Some l) m s = (Inr None, ?m, ?s)"
    using Cons.prems(1) ok by (simp add: AddReader_open)
  have ne: "readers ?m \<noteq> []" by simp
  have rest: "fst (add_readers L ls ?m ?s) = replicate (length ls) (Inr None)"
    using Cons.prems(2) by (simp add: step split: prod.splits)
  show ?case
    by (simp add: step Cons.IH [OF ne rest])
qed

lemma wstep_shape:
  "writers (fst (wstep L op (m, s))) = writers m
   \<or> (\<exists>l. op = OpAddWriter (Some l) \<and> writers (fst (wstep L op (m, s))) = writers m @ [l])
   \<or> (wcloses op \<and> writers (fst (wstep L op (m, s))) = [])"
proof (cases op)
  case (OpAddWriter w)
  show ?thesis
  proof (cases w)
    case None
    then show ?thesis using OpAddWriter by (simp add: AddWriter_nil)
  next
    case (Some l)
    then show ?thesis using OpAddWriter
      by (cases "writers m = []") (simp_all add: AddWriter_closed AddWriter_open)
  qed
next
  case (OpWrite p)
  then show ?thesis
    by (cases "writers m = []") (simp_all add: Write_closed Write_top)
next
  case OpFlush
  then show ?thesis by (simp add: Flush_sweeps)
next
  case OpClose
  then show ?thesis by (simp add: Close_sweeps)
next
  case OpFlushAndClose
  then show ?thesis by (simp add: FlushAndClose_sweeps)
qed

lemma wstep_base: "base (fst (wstep L op (m, s))) = base m"
proof (cases op)
  case (OpAddWriter w)
  show ?thesis
  proof (cases w)
    case None
    then show ?thesis using OpAddWriter by (simp add: AddWriter_nil)
  next
    case (Some l)
    then show ?thesis using OpAddWriter
      by (cases "writers m = []") (simp_all add: AddWriter_closed AddWriter_open)
  qed
next
  case (OpWrite p)
  then show ?thesis
    by (cases "writers m = []") (simp_all add: Write_closed Write_top)
next
  case OpFlush
  then show ?thesis by (simp add: Flush_sweeps)
next
  case OpClose
  then show ?thesis by (simp add: Close_sweeps)
next
  case OpFlushAndClose
  then show ?thesis by (simp add: FlushAndClose_sweeps)
qed

lemma wstep_cleared_only_by_close:
  "writers m \<noteq> [] \<Longrightarrow> writers (fst (wstep L op (m, s))) = [] \<Longrightarrow> wcloses op"
  using wstep_shape [of L op m s] by auto

lemma wrun_grows:
  "list_all (\<lambda>op. \<not> wcloses op) ops \<Longrightarrow>
   \<exists>ls. writers (fst (wrun L ops (m, s))) = writers m @ ls"
proof (induction ops arbitrary: m s)
  case Nil
  show ?case by simp
next
  case (Cons op ops)
  obtain m' s' where st: "wstep L op (m, s) = (m', s')" by (cases "wstep L op (m, s)")
  have nc: "\<not> wcloses op" and rest: "list_all (\<lambda>op. \<not> wcloses op) ops"
    using Cons.prems by simp_all
  have "\<exists>ls0. writers m' = writers m @ ls0"
    using wstep_shape [of L op m s] nc st by auto
  then obtain ls0 where a: "writers m' = writers m @ ls0" ..
  obtain ls1 where b: "writers (fst (wrun L ops (m', s'))) = writers m' @ ls1"
    using Cons.IH [OF rest, of m' s'] ..
  show ?case using a b st by simp
qed

lemma wrun_base: "base (fst (wrun L ops (m, s))) = base m"
proof (induction ops arbitrary: m s)
  case Nil
  show ?case by simp
next
  case (Cons op ops)
  obtain m' s' where st: "wstep L op (m, s) = (m', s')" by (cases "wstep L op (m, s)")
  have "base m' = base m" using wstep_base [of L op m s] st by simp
  then show ?case using Cons.IH [of m' s'] st by simp
qed

lemma rstep_shape:
  "readers (fst (rstep L op (m, s))) = readers m
   \<or> (\<exists>l. op = OpAddReader (Some l) \<and> readers (fst (rstep L op (m, s))) = readers m @ [l])
   \<or> (rcloses op \<and> readers (fst (rstep L op (m, s))) = [])"
proof (cases op)
  case (OpAddReader r)
  show ?thesis
  proof (cases r)
    case None
    then show ?thesis using OpAddReader by (simp add: AddReader_nil)
  next
    case (Some l)
    then show ?thesis using OpAddReader
      by (cases "readers m = []")
         (simp_all add: AddReader_closed AddReader_open split: option.splits)
  qed
next
  case (OpRead p)
  then show ?thesis
    by (cases "readers m = []") (simp_all add: Read_closed Read_top)
next
  case OpReaderClose
  then show ?thesis by (simp add: ReaderClose_sweeps)
qed

lemma rstep_cleared_only_by_close:
  "readers m \<noteq> [] \<Longrightarrow> readers (fst (rstep L op (m, s))) = [] \<Longrightarrow> rcloses op"
  using rstep_shape [of L op m s] by auto

lemma rrun_grows:
  "list_all (\<lambda>op. \<not> rcloses op) ops \<Longrightarrow>
   \<exists>ls. readers (fst (rrun L ops (m, s))) = readers m @ ls"
proof (induction ops arbitrary: m s)
  case Nil
  show ?case by simp
next
  case (Cons op ops)
  obtain m' s' where st: "rstep L op (m, s) = (m', s')" by (cases "rstep L op (m, s)")
  have nc: "\<not> rcloses op" and rest: "list_all (\<lambda>op. \<not> rcloses op) ops"
    using Cons.prems by simp_all
  have "\<exists>ls0. readers m' = readers m @ ls0"
    using rstep_shape [of L op m s] nc st by auto
  then obtain ls0 where a: "readers m' = readers m @ ls0" ..
  obtain ls1 where b: "readers (fst (rrun L ops (m', s'))) = readers m' @ ls1"
    using Cons.IH [OF rest, of m' s'] ..
  show ?case using a b st by simp
qed

section \<open>The claims\<close>

text \<open>
  Claim C1. A stack constructed with a non-nil base \<open>b\<close> holds exactly \<open>[b]\<close>. Attaching
  the layers \<open>L1..Ln\<close> in this order (on the write side every attach returns nil; on the
  read side under the premise that every attach returned nil) gives the sequence \<open>b, L1, .., Ln\<close>,
  and the calls made on layers are exactly one Reset per attach, in the order of the
  attaches: Reset of \<open>Li\<close> with argument \<open>L(i-1)\<close>, of \<open>L1\<close> with argument \<open>b\<close>. A Write
  (Read) on the resulting stack calls Write (Read) of \<open>Ln\<close>, of \<open>b\<close> when no layer was
  attached, once, and returns what that call returns.
\<close>

theorem layers_attach_in_order:
  "NewStackWriter (Some b) = Inr \<lparr>base = b, writers = [b]\<rparr>
   \<and> add_writers L ls \<lparr>base = b, writers = [b]\<rparr> s =
       (replicate (length ls) (Inr None),
        \<lparr>base = b, writers = b # ls\<rparr>,
        \<lparr>trace = trace s @ map2 WriterResetCall ls (b # ls),
         world = foldl (\<lambda>w (l, prev). WriterReset_of L l prev w) (world s) (zip ls (b # ls))\<rparr>)
   \<and> StackWriter_Write L p \<lparr>base = b, writers = b # ls\<rparr> s' =
       (Inr (fst (Write_of L (last (b # ls)) p (world s'))),
        \<lparr>base = b, writers = b # ls\<rparr>,
        \<lparr>trace = trace s' @ [WriteCall (last (b # ls)) p],
         world = snd (Write_of L (last (b # ls)) p (world s'))\<rparr>)
   \<and> NewReader (Some b) = Inr \<lparr>readers = [b]\<rparr>
   \<and> (fst (add_readers L ls \<lparr>readers = [b]\<rparr> s) = replicate (length ls) (Inr None) \<longrightarrow>
       add_readers L ls \<lparr>readers = [b]\<rparr> s =
         (replicate (length ls) (Inr None),
          \<lparr>readers = b # ls\<rparr>,
          \<lparr>trace = trace s @ map2 ReaderResetCall ls (b # ls),
           world = foldl (\<lambda>w (l, prev). snd (ReaderReset_of L l prev w)) (world s)
                     (zip ls (b # ls))\<rparr>))
   \<and> MultiReader_Read L p \<lparr>readers = b # ls\<rparr> s' =
       (Inr (fst (Read_of L (last (b # ls)) p (world s'))),
        \<lparr>readers = b # ls\<rparr>,
        \<lparr>trace = trace s' @ [ReadCall (last (b # ls)) p],
         world = snd (Read_of L (last (b # ls)) p (world s'))\<rparr>)"
proof -
  have w: "writers \<lparr>base = b, writers = [b]\<rparr> \<noteq> []" by simp
  have r: "readers \<lparr>readers = [b]\<rparr> \<noteq> []" by simp
  have wt: "writers \<lparr>base = b, writers = b # ls\<rparr> \<noteq> []" by simp
  have rt: "readers \<lparr>readers = b # ls\<rparr> \<noteq> []" by simp
  have c1: "NewStackWriter (Some b) = Inr \<lparr>base = b, writers = [b]\<rparr>"
    by (simp add: NewStackWriter_def)
  have c2: "add_writers L ls \<lparr>base = b, writers = [b]\<rparr> s =
       (replicate (length ls) (Inr None),
        \<lparr>base = b, writers = b # ls\<rparr>,
        \<lparr>trace = trace s @ map2 WriterResetCall ls (b # ls),
         world = foldl (\<lambda>w (l, prev). WriterReset_of L l prev w) (world s) (zip ls (b # ls))\<rparr>)"
    using add_writers_open [OF w, of L ls s] by simp
  have c3: "StackWriter_Write L p \<lparr>base = b, writers = b # ls\<rparr> s' =
       (Inr (fst (Write_of L (last (b # ls)) p (world s'))),
        \<lparr>base = b, writers = b # ls\<rparr>,
        \<lparr>trace = trace s' @ [WriteCall (last (b # ls)) p],
         world = snd (Write_of L (last (b # ls)) p (world s'))\<rparr>)"
    using Write_top [OF wt, of L p s'] by simp
  have c4: "NewReader (Some b) = Inr \<lparr>readers = [b]\<rparr>"
    by (simp add: NewReader_def)
  have c5: "fst (add_readers L ls \<lparr>readers = [b]\<rparr> s) = replicate (length ls) (Inr None) \<longrightarrow>
       add_readers L ls \<lparr>readers = [b]\<rparr> s =
         (replicate (length ls) (Inr None),
          \<lparr>readers = b # ls\<rparr>,
          \<lparr>trace = trace s @ map2 ReaderResetCall ls (b # ls),
           world = foldl (\<lambda>w (l, prev). snd (ReaderReset_of L l prev w)) (world s)
                     (zip ls (b # ls))\<rparr>)"
    using add_readers_open [OF r, of L ls s] by simp
  have c6: "MultiReader_Read L p \<lparr>readers = b # ls\<rparr> s' =
       (Inr (fst (Read_of L (last (b # ls)) p (world s'))),
        \<lparr>readers = b # ls\<rparr>,
        \<lparr>trace = trace s' @ [ReadCall (last (b # ls)) p],
         world = snd (Read_of L (last (b # ls)) p (world s'))\<rparr>)"
    using Read_top [OF rt, of L p s'] by simp
  show ?thesis using c1 c2 c3 c4 c5 c6 by blast
qed

theorem layers_attach_in_order_witness:
  "fst (add_readers demo_layers [1, 2] \<lparr>readers = [0]\<rparr> demo_sys) =
     replicate (length [1, 2 :: nat]) (Inr None)
   \<and> add_readers demo_layers [1, 2] \<lparr>readers = [0]\<rparr> demo_sys =
       ([Inr None, Inr None], \<lparr>readers = [0, 1, 2]\<rparr>,
        \<lparr>trace = [ReaderResetCall 1 0, ReaderResetCall 2 1], world = 2\<rparr>)
   \<and> MultiReader_Read demo_layers [7] \<lparr>readers = [0, 1, 2]\<rparr> demo_sys =
       (Inr ([7], 0, Some EOF), \<lparr>readers = [0, 1, 2]\<rparr>,
        \<lparr>trace = [ReadCall 2 [7]], world = 1\<rparr>)
   \<and> add_writers demo_layers [1, 2] \<lparr>base = 0, writers = [0]\<rparr> demo_sys =
       ([Inr None, Inr None], \<lparr>base = 0, writers = [0, 1, 2]\<rparr>,
        \<lparr>trace = [WriterResetCall 1 0, WriterResetCall 2 1], world = 2\<rparr>)
   \<and> StackWriter_Write demo_layers [7] \<lparr>base = 0, writers = [0, 1, 2]\<rparr> demo_sys =
       (Inr (1, None), \<lparr>base = 0, writers = [0, 1, 2]\<rparr>,
        \<lparr>trace = [WriteCall 2 [7]], world = 1\<rparr>)"
proof -
  have h: "fst (add_readers demo_layers [1, 2] \<lparr>readers = [0]\<rparr> demo_sys) =
     replicate (length [1, 2 :: nat]) (Inr None)"
    by (simp add: MultiReader_AddReader_def go_index_def demo_layers_def demo_sys_def)
  show ?thesis
    using h layers_attach_in_order
      [where b = 0 and L = demo_layers and ls = "[1, 2]" and s = demo_sys
         and p = "[7]" and s' = demo_sys]
    by (simp add: demo_layers_def demo_sys_def)
qed

text \<open>
  Claim C2. After Close or FlushAndClose of a StackWriter and after Close of a
  MultiReader, whatever the layers returned, the layer sequence is empty. Whatever
  operations the client calls afterwards, the closed stack stays as it is and no layer is
  called; a Write then returns \<open>(0, io.ErrClosedPipe)\<close>, a Read returns \<open>(0, io.EOF)\<close> and
  leaves the buffer alone.
\<close>

theorem closed_stack_rejects:
  "writers (fst (snd (StackWriter_Close L m s))) = []
   \<and> writers (fst (snd (StackWriter_FlushAndClose L m s))) = []
   \<and> readers (fst (snd (MultiReader_Close L r s))) = []
   \<and> wrun L ops (snd (StackWriter_Close L m s)) = snd (StackWriter_Close L m s)
   \<and> wrun L ops (snd (StackWriter_FlushAndClose L m s)) = snd (StackWriter_FlushAndClose L m s)
   \<and> rrun L rops (snd (MultiReader_Close L r s)) = snd (MultiReader_Close L r s)
   \<and> StackWriter_Write L p (fst (wrun L ops (snd (StackWriter_Close L m s)))) s' =
       (Inr (0, Some ErrClosedPipe), fst (snd (StackWriter_Close L m s)), s')
   \<and> StackWriter_Write L p (fst (wrun L ops (snd (StackWriter_FlushAndClose L m s)))) s' =
       (Inr (0, Some ErrClosedPipe), fst (snd (StackWriter_FlushAndClose L m s)), s')
   \<and> MultiReader_Read L p (fst (rrun L rops (snd (MultiReader_Close L r s)))) s' =
       (Inr (p, 0, Some EOF), fst (snd (MultiReader_Close L r s)), s')"
proof -
  have c: "writers (fst (snd (StackWriter_Close L m s))) = []"
    by (simp add: Close_sweeps)
  have f: "writers (fst (snd (StackWriter_FlushAndClose L m s))) = []"
    by (simp add: FlushAndClose_sweeps)
  have r: "readers (fst (snd (MultiReader_Close L r s))) = []"
    by (simp add: ReaderClose_sweeps)
  have wc: "wrun L ops (snd (StackWriter_Close L m s)) = snd (StackWriter_Close L m s)"
    using c by (rule wrun_closed_pair)
  have wf: "wrun L ops (snd (StackWriter_FlushAndClose L m s)) = snd (StackWriter_FlushAndClose L m s)"
    using f by (rule wrun_closed_pair)
  have rr: "rrun L rops (snd (MultiReader_Close L r s)) = snd (MultiReader_Close L r s)"
    using r by (rule rrun_closed_pair)
  show ?thesis
    unfolding wc wf rr using c f r
    by (simp add: Write_closed Read_closed)
qed

theorem closed_stack_rejects_witness:
  "StackWriter_Write demo_layers [7]
     (fst (wrun demo_layers [OpAddWriter (Some 4), OpFlush, OpWrite [1]]
        (snd (StackWriter_Close demo_layers \<lparr>base = 0, writers = [0, 1]\<rparr> demo_sys))))
     demo_sys =
     (Inr (0, Some ErrClosedPipe), \<lparr>base = 0, writers = []\<rparr>, demo_sys)
   \<and> MultiReader_Read demo_layers [7]
     (fst (rrun demo_layers [OpAddReader (Some 4), OpRead [1]]
        (snd (MultiReader_Close demo_layers \<lparr>readers = [0, 1]\<rparr> demo_sys))))
     demo_sys =
     (Inr ([7], 0, Some EOF), \<lparr>readers = []\<rparr>, demo_sys)"
proof -
  have c: "fst (snd (StackWriter_Close demo_layers \<lparr>base = 0, writers = [0, 1]\<rparr> demo_sys)) =
      \<lparr>base = 0, writers = []\<rparr>"
    by (simp add: Close_sweeps)
  have r: "fst (snd (MultiReader_Close demo_layers \<lparr>readers = [0, 1]\<rparr> demo_sys)) =
      \<lparr>readers = []\<rparr>"
    by (simp add: ReaderClose_sweeps)
  note t = closed_stack_rejects
    [where L = demo_layers and m = "\<lparr>base = 0, writers = [0, 1]\<rparr>"
       and r = "\<lparr>readers = [0, 1]\<rparr>" and s = demo_sys and s' = demo_sys and p = "[7]"
       and ops = "[OpAddWriter (Some 4), OpFlush, OpWrite [1]]"
       and rops = "[OpAddReader (Some 4), OpRead [1]]"]
  have w: "StackWriter_Write demo_layers [7]
     (fst (wrun demo_layers [OpAddWriter (Some 4), OpFlush, OpWrite [1]]
        (snd (StackWriter_Close demo_layers \<lparr>base = 0, writers = [0, 1]\<rparr> demo_sys))))
     demo_sys =
     (Inr (0, Some ErrClosedPipe),
      fst (snd (StackWriter_Close demo_layers \<lparr>base = 0, writers = [0, 1]\<rparr> demo_sys)), demo_sys)"
    using t by blast
  have rd: "MultiReader_Read demo_layers [7]
     (fst (rrun demo_layers [OpAddReader (Some 4), OpRead [1]]
        (snd (MultiReader_Close demo_layers \<lparr>readers = [0, 1]\<rparr> demo_sys))))
     demo_sys =
     (Inr ([7], 0, Some EOF),
      fst (snd (MultiReader_Close demo_layers \<lparr>readers = [0, 1]\<rparr> demo_sys)), demo_sys)"
    using t by blast
  show ?thesis using w [unfolded c] rd [unfolded r] by blast
qed

text \<open>
  Claim C3. Flush and Close of the StackWriter and Close of the MultiReader visit the
  layers from the top to the base: the calls they add to the trace are exactly the Flush
  (Close) calls on the layers that implement the capability, in the reversed order of the
  sequence, each call running in the world left by the one before. No layer is left out
  because an earlier one failed, a layer without the capability is passed over, and the
  error returned is the first non-nil error in that order (nil when there is none).
\<close>

theorem sweeps_top_to_base:
  "StackWriter_Flush L m s =
     (Inr (first_error (fst (call_all (Flush_of L) (filter (is_Flusher L) (rev (writers m))) (world s)))),
      m,
      \<lparr>trace = trace s @ map FlushCall (filter (is_Flusher L) (rev (writers m))),
       world = snd (call_all (Flush_of L) (filter (is_Flusher L) (rev (writers m))) (world s))\<rparr>)
   \<and> StackWriter_Close L m s =
     (Inr (first_error (fst (call_all (Close_of L) (filter (is_Closer L) (rev (writers m))) (world s)))),
      m\<lparr>writers := []\<rparr>,
      \<lparr>trace = trace s @ map CloseCall (filter (is_Closer L) (rev (writers m))),
       world = snd (call_all (Close_of L) (filter (is_Closer L) (rev (writers m))) (world s))\<rparr>)
   \<and> MultiReader_Close L r s =
     (Inr (first_error (fst (call_all (Close_of L) (filter (is_Closer L) (rev (readers r))) (world s)))),
      r\<lparr>readers := []\<rparr>,
      \<lparr>trace = trace s @ map CloseCall (filter (is_Closer L) (rev (readers r))),
       world = snd (call_all (Close_of L) (filter (is_Closer L) (rev (readers r))) (world s))\<rparr>)"
  using Flush_sweeps [of L m s] Close_sweeps [of L m s] ReaderClose_sweeps [of L r s]
  by blast

theorem sweeps_top_to_base_witness:
  "StackWriter_Flush demo_layers \<lparr>base = 0, writers = [0, 1, 2, 4]\<rparr> demo_sys =
     (Inr (Some (LayerError 20)), \<lparr>base = 0, writers = [0, 1, 2, 4]\<rparr>,
      \<lparr>trace = [FlushCall 2, FlushCall 1], world = 2\<rparr>)
   \<and> StackWriter_Close demo_layers \<lparr>base = 0, writers = [0, 1, 2, 4]\<rparr> demo_sys =
     (Inr (Some (LayerError 34)), \<lparr>base = 0, writers = []\<rparr>,
      \<lparr>trace = [CloseCall 4, CloseCall 2, CloseCall 1], world = 3\<rparr>)
   \<and> MultiReader_Close demo_layers \<lparr>readers = [0, 1, 2]\<rparr> demo_sys =
     (Inr (Some (LayerError 32)), \<lparr>readers = []\<rparr>,
      \<lparr>trace = [CloseCall 2, CloseCall 1], world = 2\<rparr>)"
  using sweeps_top_to_base
    [where L = demo_layers and m = "\<lparr>base = 0, writers = [0, 1, 2, 4]\<rparr>"
       and r = "\<lparr>readers = [0, 1, 2]\<rparr>" and s = demo_sys]
  by (simp add: demo_layers_def demo_sys_def)

text \<open>
  Claim C4. FlushAndClose first calls Flush on every layer that implements it, from the
  top to the base, and only then Close on every layer that implements it, again from the
  top to the base. It returns the first non-nil error of the flush results followed by
  the close results, and the layer sequence is empty afterwards, whatever the calls
  returned.
\<close>

theorem FlushAndClose_flushes_then_closes:
  "StackWriter_FlushAndClose L m s =
     (Inr (first_error
             (fst (call_all (Flush_of L) (filter (is_Flusher L) (rev (writers m))) (world s)) @
              fst (call_all (Close_of L) (filter (is_Closer L) (rev (writers m)))
                     (snd (call_all (Flush_of L) (filter (is_Flusher L) (rev (writers m))) (world s)))))),
      m\<lparr>writers := []\<rparr>,
      \<lparr>trace = trace s @ map FlushCall (filter (is_Flusher L) (rev (writers m))) @
                map CloseCall (filter (is_Closer L) (rev (writers m))),
       world = snd (call_all (Close_of L) (filter (is_Closer L) (rev (writers m)))
                     (snd (call_all (Flush_of L) (filter (is_Flusher L) (rev (writers m))) (world s))))\<rparr>)
   \<and> writers (fst (snd (StackWriter_FlushAndClose L m s))) = []"
  by (simp add: FlushAndClose_sweeps)

theorem FlushAndClose_flushes_then_closes_witness:
  "StackWriter_FlushAndClose demo_layers \<lparr>base = 0, writers = [0, 1, 2]\<rparr> demo_sys =
     (Inr (Some (LayerError 20)), \<lparr>base = 0, writers = []\<rparr>,
      \<lparr>trace = [FlushCall 2, FlushCall 1, CloseCall 2, CloseCall 1], world = 4\<rparr>)"
  using FlushAndClose_flushes_then_closes
    [where L = demo_layers and m = "\<lparr>base = 0, writers = [0, 1, 2]\<rparr>" and s = demo_sys]
  by (simp add: demo_layers_def demo_sys_def)

text \<open>
  Claim C5. When AddReader is called with a non-nil layer on a MultiReader that is not
  closed and the Reset of the layer on the current top returns the error \<open>e\<close>, AddReader
  returns \<open>e\<close> and the MultiReader is unchanged: same length, same top. The only call made
  on a layer is that Reset.
\<close>

theorem failed_reset_aborts_attach:
  assumes "readers m \<noteq> []"
    and "fst (ReaderReset_of L r (last (readers m)) (world s)) = Some e"
  shows "fst (MultiReader_AddReader L (Some r) m s) = Inr (Some e)
    \<and> fst (snd (MultiReader_AddReader L (Some r) m s)) = m
    \<and> length (readers (fst (snd (MultiReader_AddReader L (Some r) m s)))) = length (readers m)
    \<and> last (readers (fst (snd (MultiReader_AddReader L (Some r) m s)))) = last (readers m)
    \<and> trace (snd (snd (MultiReader_AddReader L (Some r) m s))) =
        trace s @ [ReaderResetCall r (last (readers m))]"
  using assms by (simp add: AddReader_open)

theorem failed_reset_aborts_attach_witness:
  "readers \<lparr>readers = [0, 1]\<rparr> \<noteq> []
   \<and> fst (ReaderReset_of demo_layers 3 (last (readers \<lparr>readers = [0, 1]\<rparr>)) (world demo_sys)) =
       Some (LayerError 3)
   \<and> fst (MultiReader_AddReader demo_layers (Some 3) \<lparr>readers = [0, 1]\<rparr> demo_sys) =
       Inr (Some (LayerError 3))
   \<and> fst (snd (MultiReader_AddReader demo_layers (Some 3) \<lparr>readers = [0, 1]\<rparr> demo_sys)) =
       \<lparr>readers = [0, 1]\<rparr>
   \<and> trace (snd (snd (MultiReader_AddReader demo_layers (Some 3) \<lparr>readers = [0, 1]\<rparr> demo_sys))) =
       [ReaderResetCall 3 1]"
proof -
  have h1: "readers \<lparr>readers = [0, 1]\<rparr> \<noteq> []" by simp
  have h2: "fst (ReaderReset_of demo_layers 3 (last (readers \<lparr>readers = [0, 1]\<rparr>)) (world demo_sys)) =
       Some (LayerError 3)"
    by (simp add: demo_layers_def)
  show ?thesis
    using h1 h2 failed_reset_aborts_attach [OF h1 h2]
    by (simp add: demo_sys_def)
qed

text \<open>
  Claim C6. NewStackWriter and NewReader with a nil base return the error
  \<open>errors.New("base writer cannot be nil")\<close> (\<open>"base reader cannot be nil"\<close>) and no
  stack. AddWriter and AddReader with a nil layer return \<open>errors.New("writer cannot be
  nil")\<close> (\<open>"reader cannot be nil"\<close>), call no layer and leave the stack unchanged. These
  errors are what the specification calls InvalidArgument.
\<close>

theorem nil_arguments_rejected:
  "NewStackWriter None = Inl (ErrorsNew ''base writer cannot be nil'')
   \<and> NewReader None = Inl (ErrorsNew ''base reader cannot be nil'')
   \<and> StackWriter_AddWriter L None m s = (Inr (Some (ErrorsNew ''writer cannot be nil'')), m, s)
   \<and> MultiReader_AddReader L None r s = (Inr (Some (ErrorsNew ''reader cannot be nil'')), r, s)"
  by (simp add: NewStackWriter_def NewReader_def AddWriter_nil AddReader_nil)

text \<open>
  Claim C7. A constructed stack holds \<open>[b]\<close>. Every operation leaves the layer sequence
  as it is, or appends one layer at its end (a successful attach), or, for Close and
  FlushAndClose only, clears it; the field \<open>base\<close> never changes. Hence after any
  operations other than Close and FlushAndClose the sequence is the earlier sequence
  followed by the layers attached since, and a stack constructed on \<open>b\<close> is non-empty
  with \<open>b\<close> at index 0. A non-empty sequence becomes empty by Close or FlushAndClose only.
\<close>

theorem sequence_only_grows_until_close:
  "NewStackWriter (Some b) = Inr \<lparr>base = b, writers = [b]\<rparr>
   \<and> NewReader (Some b) = Inr \<lparr>readers = [b]\<rparr>
   \<and> (list_all (\<lambda>op. \<not> wcloses op) ops \<longrightarrow>
        (\<exists>ls. writers (fst (wrun L ops (\<lparr>base = b, writers = [b]\<rparr>, s))) = b # ls))
   \<and> (list_all (\<lambda>op. \<not> rcloses op) rops \<longrightarrow>
        (\<exists>ls. readers (fst (rrun L rops (\<lparr>readers = [b]\<rparr>, s))) = b # ls))
   \<and> base (fst (wrun L ops (m, s))) = base m
   \<and> (list_all (\<lambda>op. \<not> wcloses op) ops \<longrightarrow>
        (\<exists>ls. writers (fst (wrun L ops (m, s))) = writers m @ ls))
   \<and> (list_all (\<lambda>op. \<not> rcloses op) rops \<longrightarrow>
        (\<exists>ls. readers (fst (rrun L rops (r, s))) = readers r @ ls))
   \<and> (writers (fst (wstep L op (m, s))) = writers m
        \<or> (\<exists>l. op = OpAddWriter (Some l) \<and> writers (fst (wstep L op (m, s))) = writers m @ [l])
        \<or> (wcloses op \<and> writers (fst (wstep L op (m, s))) = []))
   \<and> (readers (fst (rstep L rop (r, s))) = readers r
        \<or> (\<exists>l. rop = OpAddReader (Some l) \<and> readers (fst (rstep L rop (r, s))) = readers r @ [l])
        \<or> (rcloses rop \<and> readers (fst (rstep L rop (r, s))) = []))
   \<and> (writers m \<noteq> [] \<and> writers (fst (wstep L op (m, s))) = [] \<longrightarrow> wcloses op)
   \<and> (readers r \<noteq> [] \<and> readers (fst (rstep L rop (r, s))) = [] \<longrightarrow> rcloses rop)"
proof -
  have c1: "NewStackWriter (Some b) = Inr \<lparr>base = b, writers = [b]\<rparr>"
    by (simp add: NewStackWriter_def)
  have c2: "NewReader (Some b) = Inr \<lparr>readers = [b]\<rparr>"
    by (simp add: NewReader_def)
  have c3: "list_all (\<lambda>op. \<not> wcloses op) ops \<longrightarrow>
        (\<exists>ls. writers (fst (wrun L ops (\<lparr>base = b, writers = [b]\<rparr>, s))) = b # ls)"
    using wrun_grows [of ops L "\<lparr>base = b, writers = [b]\<rparr>" s] by simp
  have c4: "list_all (\<lambda>op. \<not> rcloses op) rops \<longrightarrow>
        (\<exists>ls. readers (fst (rrun L rops (\<lparr>readers = [b]\<rparr>, s))) = b # ls)"
    using rrun_grows [of rops L "\<lparr>readers = [b]\<rparr>" s] by simp
  have c5: "base (fst (wrun L ops (m, s))) = base m"
    by (rule wrun_base)
  have c6: "list_all (\<lambda>op. \<not> wcloses op) ops \<longrightarrow>
        (\<exists>ls. writers (fst (wrun L ops (m, s))) = writers m @ ls)"
    using wrun_grows [of ops L m s] by simp
  have c7: "list_all (\<lambda>op. \<not> rcloses op) rops \<longrightarrow>
        (\<exists>ls. readers (fst (rrun L rops (r, s))) = readers r @ ls)"
    using rrun_grows [of rops L r s] by simp
  have c8: "writers m \<noteq> [] \<and> writers (fst (wstep L op (m, s))) = [] \<longrightarrow> wcloses op"
    using wstep_cleared_only_by_close [of m L op s] by simp
  have c9: "readers r \<noteq> [] \<and> readers (fst (rstep L rop (r, s))) = [] \<longrightarrow> rcloses rop"
    using rstep_cleared_only_by_close [of r L rop s] by simp
  show ?thesis
    using c1 c2 c3 c4 c5 c6 c7 c8 c9 wstep_shape [of L op m s] rstep_shape [of L rop r s]
    by blast
qed

theorem sequence_only_grows_until_close_witness:
  "list_all (\<lambda>op. \<not> wcloses op)
     [OpAddWriter (Some 1), OpWrite [7], OpFlush, OpAddWriter None, OpAddWriter (Some 2)]
   \<and> (\<exists>ls. writers (fst (wrun demo_layers
          [OpAddWriter (Some 1), OpWrite [7], OpFlush, OpAddWriter None, OpAddWriter (Some 2)]
          (\<lparr>base = 0, writers = [0]\<rparr>, demo_sys))) = 0 # ls)
   \<and> list_all (\<lambda>op. \<not> rcloses op) [OpAddReader (Some 1), OpAddReader (Some 3), OpRead [7]]
   \<and> (\<exists>ls. readers (fst (rrun demo_layers
          [OpAddReader (Some 1), OpAddReader (Some 3), OpRead [7]]
          (\<lparr>readers = [0]\<rparr>, demo_sys))) = 0 # ls)
   \<and> writers \<lparr>base = 0, writers = [0, 1]\<rparr> \<noteq> []
   \<and> writers (fst (wstep demo_layers OpClose (\<lparr>base = 0, writers = [0, 1]\<rparr>, demo_sys))) = []
   \<and> wcloses OpClose
   \<and> readers \<lparr>readers = [0, 1]\<rparr> \<noteq> []
   \<and> readers (fst (rstep demo_layers OpReaderClose (\<lparr>readers = [0, 1]\<rparr>, demo_sys))) = []
   \<and> rcloses OpReaderClose"
proof -
  have h1: "list_all (\<lambda>op. \<not> wcloses op)
     [OpAddWriter (Some 1), OpWrite [7], OpFlush, OpAddWriter None, OpAddWriter (Some 2)]"
    by simp
  have h2: "list_all (\<lambda>op. \<not> rcloses op) [OpAddReader (Some 1), OpAddReader (Some 3), OpRead [7]]"
    by simp
  have h3: "writers (fst (wstep demo_layers OpClose (\<lparr>base = 0, writers = [0, 1]\<rparr>, demo_sys))) = []"
    by (simp add: Close_sweeps)
  have h4: "readers (fst (rstep demo_layers OpReaderClose (\<lparr>readers = [0, 1]\<rparr>, demo_sys))) = []"
    by (simp add: ReaderClose_sweeps)
  show ?thesis
    using h1 h2 h3 h4 sequence_only_grows_until_close
      [where b = 0 and L = demo_layers and s = demo_sys
         and ops = "[OpAddWriter (Some 1), OpWrite [7], OpFlush, OpAddWriter None, OpAddWriter (Some 2)]"
         and rops = "[OpAddReader (Some 1), OpAddReader (Some 3), OpRead [7]]"
         and m = "\<lparr>base = 0, writers = [0, 1]\<rparr>" and r = "\<lparr>readers = [0, 1]\<rparr>"
         and op = OpClose and rop = OpReaderClose]
    by simp
qed

text \<open>
  Claim C8. AddWriter and AddReader with a non-nil layer on a stack whose sequence is
  empty, in particular on a stack that was closed, index the sequence at \<open>-1\<close>: the
  operation panics with index out of range, returns no error value, calls no layer and
  leaves the stack empty. A non-nil add panics exactly when the sequence is empty.
\<close>

theorem add_on_closed_stack_panics:
  "StackWriter_AddWriter L (Some w) (m\<lparr>writers := []\<rparr>) s =
     (Inl (IndexOutOfRange (- 1)), m\<lparr>writers := []\<rparr>, s)
   \<and> MultiReader_AddReader L (Some w) (r\<lparr>readers := []\<rparr>) s =
     (Inl (IndexOutOfRange (- 1)), r\<lparr>readers := []\<rparr>, s)
   \<and> StackWriter_AddWriter L (Some w) (fst (snd (StackWriter_Close L m s'))) s =
     (Inl (IndexOutOfRange (- 1)), fst (snd (StackWriter_Close L m s')), s)
   \<and> StackWriter_AddWriter L (Some w) (fst (snd (StackWriter_FlushAndClose L m s'))) s =
     (Inl (IndexOutOfRange (- 1)), fst (snd (StackWriter_FlushAndClose L m s')), s)
   \<and> MultiReader_AddReader L (Some w) (fst (snd (MultiReader_Close L r s'))) s =
     (Inl (IndexOutOfRange (- 1)), fst (snd (MultiReader_Close L r s')), s)
   \<and> (\<exists>pn. fst (StackWriter_AddWriter L (Some w) m s) = Inl pn) = (writers m = [])
   \<and> (\<exists>pn. fst (MultiReader_AddReader L (Some w) r s) = Inl pn) = (readers r = [])"
proof -
  have a: "(\<exists>pn. fst (StackWriter_AddWriter L (Some w) m s) = Inl pn) = (writers m = [])"
    by (cases "writers m = []") (simp_all add: AddWriter_closed AddWriter_open)
  have b: "(\<exists>pn. fst (MultiReader_AddReader L (Some w) r s) = Inl pn) = (readers r = [])"
    by (cases "readers r = []")
       (simp_all add: AddReader_closed AddReader_open split: option.splits)
  show ?thesis
    using a b
    by (simp add: AddWriter_closed AddReader_closed Close_sweeps FlushAndClose_sweeps
          ReaderClose_sweeps)
qed

theorem add_on_closed_stack_panics_witness:
  "StackWriter_AddWriter demo_layers (Some 4)
     (fst (snd (StackWriter_Close demo_layers \<lparr>base = 0, writers = [0, 1]\<rparr> demo_sys))) demo_sys =
     (Inl (IndexOutOfRange (- 1)), \<lparr>base = 0, writers = []\<rparr>, demo_sys)
   \<and> MultiReader_AddReader demo_layers (Some 4)
     (fst (snd (MultiReader_Close demo_layers \<lparr>readers = [0, 1]\<rparr> demo_sys))) demo_sys =
     (Inl (IndexOutOfRange (- 1)), \<lparr>readers = []\<rparr>, demo_sys)"
proof -
  have c: "fst (snd (StackWriter_Close demo_layers \<lparr>base = 0, writers = [0, 1]\<rparr> demo_sys)) =
      \<lparr>base = 0, writers = []\<rparr>"
    by (simp add: Close_sweeps)
  have r: "fst (snd (MultiReader_Close demo_layers \<lparr>readers = [0, 1]\<rparr> demo_sys)) =
      \<lparr>readers = []\<rparr>"
    by (simp add: ReaderClose_sweeps)
  note t = add_on_closed_stack_panics
    [where L = demo_layers and m = "\<lparr>base = 0, writers = [0, 1]\<rparr>"
       and r = "\<lparr>readers = [0, 1]\<rparr>" and s = demo_sys and s' = demo_sys and w = 4]
  have a: "StackWriter_AddWriter demo_layers (Some 4)
     (fst (snd (StackWriter_Close demo_layers \<lparr>base = 0, writers = [0, 1]\<rparr> demo_sys))) demo_sys =
     (Inl (IndexOutOfRange (- 1)),
      fst (snd (StackWriter_Close demo_layers \<lparr>base = 0, writers = [0, 1]\<rparr> demo_sys)), demo_sys)"
    using t by blast
  have b: "MultiReader_AddReader demo_layers (Some 4)
     (fst (snd (MultiReader_Close demo_layers \<lparr>readers = [0, 1]\<rparr> demo_sys))) demo_sys =
     (Inl (IndexOutOfRange (- 1)),
      fst (snd (MultiReader_Close demo_layers \<lparr>readers = [0, 1]\<rparr> demo_sys)), demo_sys)"
    using t by blast
  show ?thesis unfolding c r using a [unfolded c] b [unfolded r] by blast
qed

text \<open>
  Claim C9. On a stack whose sequence is empty, Close, Flush and FlushAndClose of the
  StackWriter and Close of the MultiReader return nil, call no layer and leave the
  sequence empty. In particular a second Close after a Close returns nil.
\<close>

theorem closed_stack_teardown_is_noop:
  "StackWriter_Close L (m\<lparr>writers := []\<rparr>) s = (Inr None, m\<lparr>writers := []\<rparr>, s)
   \<and> StackWriter_Flush L (m\<lparr>writers := []\<rparr>) s = (Inr None, m\<lparr>writers := []\<rparr>, s)
   \<and> StackWriter_FlushAndClose L (m\<lparr>writers := []\<rparr>) s = (Inr None, m\<lparr>writers := []\<rparr>, s)
   \<and> MultiReader_Close L (r\<lparr>readers := []\<rparr>) s = (Inr None, r\<lparr>readers := []\<rparr>, s)
   \<and> StackWriter_Close L (fst (snd (StackWriter_Close L m s'))) s =
       (Inr None, fst (snd (StackWriter_Close L m s')), s)
   \<and> MultiReader_Close L (fst (snd (MultiReader_Close L r s'))) s =
       (Inr None, fst (snd (MultiReader_Close L r s')), s)"
  by (simp add: Close_closed Flush_closed FlushAndClose_closed ReaderClose_closed
        Close_sweeps ReaderClose_sweeps)

text \<open>
  Claim C10. Flush returns the StackWriter as it was, whatever the Flush calls returned:
  the layer sequence has the same elements in the same order, and a Write after the Flush
  does what it would do on the stack before the Flush; on a stack with top \<open>t\<close> it calls
  Write of \<open>t\<close>.
\<close>

theorem Flush_keeps_stack:
  "fst (snd (StackWriter_Flush L m s)) = m
   \<and> writers (fst (snd (StackWriter_Flush L m s))) = writers m
   \<and> StackWriter_Write L p (fst (snd (StackWriter_Flush L m s))) s' = StackWriter_Write L p m s'
   \<and> StackWriter_Write L p (fst (snd (StackWriter_Flush L (m\<lparr>writers := ws @ [t]\<rparr>) s))) s' =
       (Inr (fst (Write_of L t p (world s'))), m\<lparr>writers := ws @ [t]\<rparr>,
        \<lparr>trace = trace s' @ [WriteCall t p], world = snd (Write_of L t p (world s'))\<rparr>)"
  by (simp add: Flush_sweeps Write_top)

end
